theory Spec2Isabelle
  imports Main "HOL-Library.Sublist"
begin

section \<open>Optimize-Disc.py: the data the script works on\<close>

text \<open>
  The script reads the filesystem through \<^verbatim>\<open>os.path.isdir\<close>, \<^verbatim>\<open>os.path.isfile\<close>,
  \<^verbatim>\<open>os.walk\<close> and \<^verbatim>\<open>os.getcwd\<close>, reads and unpacks archives through the external
  library py7zr, and writes to standard output with \<^verbatim>\<open>print\<close>. All of that is made
  explicit as a \<open>world\<close> that every operation takes and returns.

  A directory listing is what \<^verbatim>\<open>os.scandir\<close> yields, in its order: names with the kind
  of entry. \<open>Link_entry\<close> is a symbolic link to a directory: \<^verbatim>\<open>os.walk\<close> lists it among
  the directories and, with its default \<^verbatim>\<open>followlinks=False\<close>, does not descend into it.
  \<open>File_entry\<close> is every entry that is not a directory.
\<close>

datatype entry = File_entry | Dir_entry "(string \<times> entry) list" | Link_entry

type_synonym listing = "(string \<times> entry) list"

text \<open>
  The bytes of a regular file, as py7zr sees them: \<open>SevenZ es ok\<close> is a file in the 7z
  format, which \<^verbatim>\<open>py7zr.SevenZipFile(path, mode='r')\<close> opens, with the members \<open>es\<close>
  (name and content, in listing order); \<open>ok\<close> tells whether \<^verbatim>\<open>extractall()\<close> then
  succeeds (a damaged payload is only detected while unpacking). \<open>Foreign f es\<close> is a
  well-formed archive with the members \<open>es\<close> in one of the other formats the script
  names in \<^verbatim>\<open>supported_archives\<close>: py7zr reads the 7z format only, and opening such a
  file raises \<^verbatim>\<open>Bad7zFile\<close>, as opening a file that is no archive (\<open>Data\<close>) does.
\<close>

datatype format = Zip | Gzip | Rar

datatype content =
  Data string
| SevenZ "(string \<times> content) list" bool
| Foreign format "(string \<times> content) list"

text \<open>What a path refers to; a path that does not exist refers to nothing.\<close>

datatype target = Directory listing | Regular content | Special

record world =
  disk :: "string \<Rightarrow> target option"
  cwd :: string
  stdout :: "string list"

datatype exn = FileNotFoundError | OSError | Bad7zFile | CrcError | TypeError | IndexError

text \<open>
  The values the local name \<^verbatim>\<open>archive\<close> of \<^verbatim>\<open>extract_archive\<close> is bound to: the
  argument string, and then the object the \<^verbatim>\<open>with ... as archive\<close> clause binds.
\<close>

datatype pyval = Str string | SevenZipFile "(string \<times> content) list" bool

section \<open>The Python and library primitives\<close>

text \<open>\<^verbatim>\<open>str.endswith\<close> with one suffix, and with a tuple of suffixes (any of them).\<close>

definition endswith1 :: "string \<Rightarrow> string \<Rightarrow> bool" where
  "endswith1 s suf \<longleftrightarrow>
     length suf \<le> length s \<and> drop (length s - length suf) s = suf"

definition endswith :: "string \<Rightarrow> string list \<Rightarrow> bool" where
  "endswith s sufs \<longleftrightarrow> list_ex (endswith1 s) sufs"

text \<open>
  \<^verbatim>\<open>os.path.join(a, b)\<close> of posixpath: an absolute second component replaces the
  first; otherwise the components are put together with one separator, unless the first
  is empty or already ends with one.
\<close>

definition startswith :: "string \<Rightarrow> string \<Rightarrow> bool" where
  "startswith s pre \<longleftrightarrow> take (length pre) s = pre"

definition join :: "string \<Rightarrow> string \<Rightarrow> string" where
  "join a b =
     (if startswith b ''/'' then b
      else if a = [] \<or> endswith1 a ''/'' then a @ b
      else a @ ''/'' @ b)"

text \<open>
  The name of a file is the last component of its path, \<^verbatim>\<open>os.path.basename\<close>: what
  follows the last separator.
\<close>

definition basename :: "string \<Rightarrow> string" where
  "basename p = rev (takeWhile (\<lambda>c. c \<noteq> CHR ''/'') (rev p))"

text \<open>\<^verbatim>\<open>os.path.isdir\<close> and \<^verbatim>\<open>os.path.isfile\<close>: both are false on a missing path.\<close>

definition isdir :: "world \<Rightarrow> string \<Rightarrow> bool" where
  "isdir w p = (case disk w p of Some (Directory l) \<Rightarrow> True | _ \<Rightarrow> False)"

definition isfile :: "world \<Rightarrow> string \<Rightarrow> bool" where
  "isfile w p = (case disk w p of Some (Regular c) \<Rightarrow> True | _ \<Rightarrow> False)"

text \<open>
  \<^verbatim>\<open>os.walk(top)\<close>, top-down: the triple of the directory itself (its path, the names
  of its directories, the names of its other entries), then the walk of each real
  subdirectory under the path \<^verbatim>\<open>join(top, dirname)\<close>, in listing order.
\<close>

definition dirnames :: "listing \<Rightarrow> string list" where
  "dirnames l = map fst (filter (\<lambda>(n, e). e \<noteq> File_entry) l)"

definition filenames :: "listing \<Rightarrow> string list" where
  "filenames l = map fst (filter (\<lambda>(n, e). e = File_entry) l)"

fun walk :: "string \<Rightarrow> listing \<Rightarrow> (string \<times> string list \<times> string list) list"
  and walk_subdirs :: "string \<Rightarrow> listing \<Rightarrow> (string \<times> string list \<times> string list) list"
where
  "walk dir l = (dir, dirnames l, filenames l) # walk_subdirs dir l"
| "walk_subdirs dir [] = []"
| "walk_subdirs dir ((d, Dir_entry sub) # rest) = walk (join dir d) sub @ walk_subdirs dir rest"
| "walk_subdirs dir ((d, File_entry) # rest) = walk_subdirs dir rest"
| "walk_subdirs dir ((d, Link_entry) # rest) = walk_subdirs dir rest"

declare walk.simps [simp del]

definition os_walk :: "world \<Rightarrow> string \<Rightarrow> (string \<times> string list \<times> string list) list" where
  "os_walk w dir = (case disk w dir of Some (Directory l) \<Rightarrow> walk dir l | _ \<Rightarrow> [])"

text \<open>
  \<^verbatim>\<open>py7zr.SevenZipFile(path, mode='r')\<close>: the object it returns, or the exception it
  raises. \<^verbatim>\<open>getnames()\<close> gives the member names in listing order.
\<close>

definition open_archive :: "world \<Rightarrow> string \<Rightarrow> exn + pyval" where
  "open_archive w p =
     (case disk w p of
        None \<Rightarrow> Inl FileNotFoundError
      | Some (Regular (SevenZ es ok)) \<Rightarrow> Inr (SevenZipFile es ok)
      | Some (Regular (Data b)) \<Rightarrow> Inl Bad7zFile
      | Some (Regular (Foreign f es)) \<Rightarrow> Inl Bad7zFile
      | Some _ \<Rightarrow> Inl OSError)"

fun getnames :: "pyval \<Rightarrow> exn + string list" where
  "getnames (SevenZipFile es ok) = Inr (map fst es)"
| "getnames (Str s) = Inl TypeError"

text \<open>
  Modelled from the spec: the body of py7zr's \<^verbatim>\<open>extractall()\<close> is not part of the
  repository. The spec's contract for it (sections 4.2 and 6) is: extract all members to
  the target directory, here the current working directory, preserving the archive's
  internal directory structure; a failure raises. A member name is a relative path with
  \<^verbatim>\<open>/\<close> between its components. Each member is written as a regular file at its name
  under the target directory; every folder on the way is created where it is missing,
  and is listed in its parent from then on, as the file is in its folder. A later member
  overwrites an earlier one of the same name. A member name that is absolute, or has an
  empty component or one of \<^verbatim>\<open>.\<close> and \<^verbatim>\<open>..\<close>, makes the extraction fail, as a
  damaged payload does; a failed extraction is taken to leave the disk as it was.
\<close>

fun components :: "string \<Rightarrow> string list" where
  "components [] = [[]]"
| "components (c # cs) =
     (if c = CHR ''/'' then [] # components cs
      else (case components cs of x # xs \<Rightarrow> (c # x) # xs | [] \<Rightarrow> [[c]]))"

definition safe_member :: "string \<Rightarrow> bool" where
  "safe_member n \<longleftrightarrow> list_all (\<lambda>c. c \<noteq> [] \<and> c \<noteq> ''.'' \<and> c \<noteq> ''..'') (components n)"

definition sub_listing :: "string \<Rightarrow> listing \<Rightarrow> listing" where
  "sub_listing d l = (case map_of l d of Some (Dir_entry sub) \<Rightarrow> sub | _ \<Rightarrow> [])"

definition put_entry :: "string \<Rightarrow> entry \<Rightarrow> listing \<Rightarrow> listing" where
  "put_entry n e l =
     (if n \<in> fst ` set l then map (\<lambda>(m, x). if m = n then (m, e) else (m, x)) l
      else l @ [(n, e)])"

fun put_file :: "string list \<Rightarrow> listing \<Rightarrow> listing" where
  "put_file [] l = l"
| "put_file [n] l = put_entry n File_entry l"
| "put_file (d # rest) l = put_entry d (Dir_entry (put_file rest (sub_listing d l))) l"

fun listing_at :: "string list \<Rightarrow> listing \<Rightarrow> listing" where
  "listing_at [] l = l"
| "listing_at (d # rest) l = listing_at rest (sub_listing d l)"

definition folders :: "string list \<Rightarrow> string list list" where
  "folders cs = map (\<lambda>k. take k cs) [1..<length cs]"

definition path_under :: "string \<Rightarrow> string list \<Rightarrow> string" where
  "path_under dest cs = foldl join dest cs"

definition write_members :: "string \<Rightarrow> listing \<Rightarrow> (string \<times> content) list
    \<Rightarrow> (string \<Rightarrow> target option) \<Rightarrow> (string \<Rightarrow> target option)" where
  "write_members dest l es d =
     (let l' = foldl (\<lambda>t m. put_file (components (fst m)) t) l es;
          d1 = foldl (\<lambda>d m. d(path_under dest (components (fst m)) \<mapsto> Regular (snd m))) d es;
          d2 = foldl (\<lambda>d cs. d(path_under dest cs \<mapsto> Directory (listing_at cs l'))) d1
                 (concat (map (\<lambda>m. folders (components (fst m))) es))
      in d2(dest \<mapsto> Directory l'))"

fun extractall :: "pyval \<Rightarrow> world \<Rightarrow> (exn + unit) \<times> world" where
  "extractall (SevenZipFile es ok) w =
     (case disk w (cwd w) of
        Some (Directory l) \<Rightarrow>
          if ok \<and> list_all (\<lambda>m. safe_member (fst m)) es
          then (Inr (), w\<lparr>disk := write_members (cwd w) l es (disk w)\<rparr>)
          else (Inl CrcError, w)
      | _ \<Rightarrow> (Inl OSError, w))"
| "extractall (Str s) w = (Inl TypeError, w)"

text \<open>\<^verbatim>\<open>print(s)\<close> and the string concatenation \<^verbatim>\<open>"literal" + v\<close>.\<close>

definition print :: "string \<Rightarrow> world \<Rightarrow> world" where
  "print s w = w\<lparr>stdout := stdout w @ [s]\<rparr>"

fun py_add :: "string \<Rightarrow> pyval \<Rightarrow> exn + string" where
  "py_add s (Str t) = Inr (s @ t)"
| "py_add s (SevenZipFile es ok) = Inl TypeError"

text \<open>\<^verbatim>\<open>str(n)\<close> of a length: its decimal digits.\<close>

definition digit :: "nat \<Rightarrow> char" where
  "digit d = ''0123456789'' ! d"

function py_str :: "nat \<Rightarrow> string" where
  "py_str n = (if n < 10 then [digit n] else py_str (n div 10) @ [digit (n mod 10)])"
  by pat_completeness auto
termination
  by (relation "measure id") auto

declare py_str.simps [simp del]

section \<open>The script\<close>

definition supported_archives :: "string list" where
  "supported_archives = [''.7z'', ''.gz'', ''.rar'', ''.zip'']"

definition supported_discs :: "string list" where
  "supported_discs = [''.iso'', ''.bin'', ''.cue'', ''.gdi'', ''.raw'', ''.chd'']"

text \<open>
  \<^verbatim>\<open>extract_archive(archive)\<close>. The \<^verbatim>\<open>with ... as archive\<close> clause rebinds the name
  \<^verbatim>\<open>archive\<close> once the constructor has returned, so the handler of the bare
  \<^verbatim>\<open>except:\<close> concatenates the message with the argument string when the constructor
  raised, and with the archive object when \<^verbatim>\<open>extractall()\<close> raised. An exception of
  the handler itself leaves the function.
\<close>

definition except_handler :: "pyval \<Rightarrow> world \<Rightarrow> (exn + unit) \<times> world" where
  "except_handler archive w =
     (case py_add ''Error extracting '' archive of
        Inl e \<Rightarrow> (Inl e, w)
      | Inr msg \<Rightarrow> (Inr (), print msg w))"

definition extract_archive :: "string \<Rightarrow> world \<Rightarrow> (exn + unit) \<times> world" where
  "extract_archive archive w =
     (case open_archive w archive of
        Inl e \<Rightarrow> except_handler (Str archive) w
      | Inr archive' \<Rightarrow>
          (case extractall archive' w of
             (Inl e, w') \<Rightarrow> except_handler archive' w'
           | (Inr u, w') \<Rightarrow> (Inr (), w')))"

text \<open>
  \<^verbatim>\<open>search_path_for_discs(path)\<close>. The two nested \<^verbatim>\<open>for\<close> loops of the directory
  branch append to \<^verbatim>\<open>found_discs\<close>; the archive branch has no \<^verbatim>\<open>try\<close>, so what
  opening the archive raises leaves the function.
\<close>

fun scan_files :: "string \<Rightarrow> string list \<Rightarrow> string list \<Rightarrow> string list" where
  "scan_files root [] found_discs = found_discs"
| "scan_files root (file # files) found_discs =
     scan_files root files
       (if endswith file supported_discs then found_discs @ [join root file]
        else found_discs)"

fun scan_walk :: "(string \<times> string list \<times> string list) list \<Rightarrow> string list \<Rightarrow> string list" where
  "scan_walk [] found_discs = found_discs"
| "scan_walk ((root, dirs, files) # rest) found_discs =
     scan_walk rest (scan_files root files found_discs)"

definition search_path_for_discs :: "string \<Rightarrow> world \<Rightarrow> (exn + string list) \<times> world" where
  "search_path_for_discs path w =
     (if isdir w path then (Inr (scan_walk (os_walk w path) []), w)
      else if isfile w path then
        (if endswith path supported_archives then
           (case open_archive w path of
              Inl e \<Rightarrow> (Inl e, w)
            | Inr archive \<Rightarrow>
                (case getnames archive of
                   Inl e \<Rightarrow> (Inl e, w)
                 | Inr names \<Rightarrow>
                     (Inr ([] @ filter (\<lambda>entry. endswith entry supported_discs) names), w)))
         else (Inr [], w))
      else (Inr [], w))"

text \<open>
  The module-level code. Both branches of the test on \<^verbatim>\<open>len(sys.argv)\<close> have the same
  shape: \<open>report\<close> is that shape, with the path scanned and the words the message ends
  with. The scan is called again for every test and for the count printed, and an
  exception of any call ends the script. \<^verbatim>\<open>sys.argv[1]\<close> raises on a list of length 0.
\<close>

definition report :: "string \<Rightarrow> string \<Rightarrow> world \<Rightarrow> (exn + unit) \<times> world" where
  "report path descr w =
     (case search_path_for_discs path w of
        (Inl e, w1) \<Rightarrow> (Inl e, w1)
      | (Inr r1, w1) \<Rightarrow>
     (case search_path_for_discs path w1 of
        (Inl e, w2) \<Rightarrow> (Inl e, w2)
      | (Inr r2, w2) \<Rightarrow>
          if length r2 = 0 then
            (Inr (), print (''No supported disc files found in '' @ descr) w2)
          else
     (case search_path_for_discs path w2 of
        (Inl e, w3) \<Rightarrow> (Inl e, w3)
      | (Inr r3, w3) \<Rightarrow>
          if length r3 > 0 then
     (case search_path_for_discs path w3 of
        (Inl e, w4) \<Rightarrow> (Inl e, w4)
      | (Inr r4, w4) \<Rightarrow>
          (Inr (), print (''Found '' @ py_str (length r4)
                          @ '' supported disc files in '' @ descr) w4))
          else (Inr (), w3))))"

definition main :: "string list \<Rightarrow> world \<Rightarrow> (exn + unit) \<times> world" where
  "main argv w =
     (if length argv = 1 then report (cwd w) ''current directory'' w
      else if length argv < 2 then (Inl IndexError, w)
      else report (argv ! 1) (argv ! 1) w)"

section \<open>Notions of the specification\<close>

text \<open>
  The files of the subtree of a directory, after the spec's words: \<open>subtree_file dir l d n\<close>
  says that below the directory of path \<open>dir\<close> and listing \<open>l\<close>, at any depth, the
  directory of path \<open>d\<close> contains the file named \<open>n\<close>. Directories are entered through
  \<open>Dir_entry\<close> only, and the path of a subdirectory is its parent's path joined with its
  name.
\<close>

inductive subtree_file :: "string \<Rightarrow> listing \<Rightarrow> string \<Rightarrow> string \<Rightarrow> bool" where
  here: "(n, File_entry) \<in> set l \<Longrightarrow> subtree_file dir l dir n"
| below: "(d, Dir_entry sub) \<in> set l \<Longrightarrow> subtree_file (join dir d) sub d' n
           \<Longrightarrow> subtree_file dir l d' n"

text \<open>
  The same, written without the script's own path arithmetic. The full path of an entry
  is the path of its directory, a separator unless that path already ends with one, and
  the name of the entry; \<open>files_below dir l d n\<close> says that below the directory of path
  \<open>dir\<close> and listing \<open>l\<close>, at any depth, the directory of full path \<open>d\<close> contains
  the file named \<open>n\<close>.
\<close>

definition entry_path :: "string \<Rightarrow> string \<Rightarrow> string" where
  "entry_path dir n =
     (if dir = [] \<or> last dir = CHR ''/'' then dir @ n else dir @ ''/'' @ n)"

inductive files_below :: "string \<Rightarrow> listing \<Rightarrow> string \<Rightarrow> string \<Rightarrow> bool" where
  top: "(n, File_entry) \<in> set l \<Longrightarrow> files_below dir l dir n"
| deeper: "(d, Dir_entry sub) \<in> set l \<Longrightarrow> files_below (entry_path dir d) sub d' n
           \<Longrightarrow> files_below dir l d' n"

text \<open>
  The names a filesystem can hold: not empty and without the separator. A listing is
  valid when every name in it, at every depth, is one.
\<close>

definition valid_name :: "string \<Rightarrow> bool" where
  "valid_name n \<longleftrightarrow> n \<noteq> [] \<and> CHR ''/'' \<notin> set n"

fun valid_listing :: "listing \<Rightarrow> bool" where
  "valid_listing [] \<longleftrightarrow> True"
| "valid_listing ((n, Dir_entry sub) # rest) \<longleftrightarrow>
     valid_name n \<and> valid_listing sub \<and> valid_listing rest"
| "valid_listing ((n, File_entry) # rest) \<longleftrightarrow> valid_name n \<and> valid_listing rest"
| "valid_listing ((n, Link_entry) # rest) \<longleftrightarrow> valid_name n \<and> valid_listing rest"

text \<open>
  The same directory tree enumerated in another order: two neighbouring runs of entries
  of a listing exchanged, at the top or inside any subdirectory, any number of times.
\<close>

inductive reordered :: "listing \<Rightarrow> listing \<Rightarrow> bool" where
  same: "reordered l l"
| swap: "reordered (pre @ xs @ ys @ post) (pre @ ys @ xs @ post)"
| inside: "reordered sub sub' \<Longrightarrow>
     reordered (pre @ (d, Dir_entry sub) # post) (pre @ (d, Dir_entry sub') # post)"
| trans: "reordered l l' \<Longrightarrow> reordered l' l'' \<Longrightarrow> reordered l l''"

text \<open>
  A small world for the concrete cases: a directory tree three levels deep with disc
  images, other files and a link; two files in the 7z format, whatever their names say,
  one with three members; a file with an archive suffix that is no archive; and an
  archive whose payload is damaged.
\<close>

definition games :: listing where
  "games =
     [(''a.iso'', File_entry),
      (''GAME.ISO'', File_entry),
      (''sub'', Dir_entry
         [(''b.bin'', File_entry),
          (''c.txt'', File_entry),
          (''deep'', Dir_entry [(''d.chd'', File_entry)])]),
      (''ln'', Link_entry),
      (''z.cue'', File_entry)]"

definition a_zip :: "(string \<times> content) list" where
  "a_zip = [(''game.iso'', Data ''I''), (''readme.txt'', Data ''R''), (''track.bin'', Data ''T'')]"

definition good_zip :: "(string \<times> content) list" where
  "good_zip =
     [(''disc/game.cue'', Data ''C''), (''disc/game.bin'', Data ''B''), (''readme.txt'', Data ''R'')]"

definition example_world :: world where
  "example_world =
     \<lparr>disk = [''/games'' \<mapsto> Directory games,
              ''a.zip'' \<mapsto> Regular (SevenZ a_zip True),
              ''good.zip'' \<mapsto> Regular (SevenZ good_zip True),
              ''corrupt.7z'' \<mapsto> Regular (Data ''junk''),
              ''notes.txt'' \<mapsto> Regular (Data ''text''),
              ''damaged.7z'' \<mapsto> Regular (SevenZ a_zip False)],
      cwd = ''/games'',
      stdout = []\<rparr>"

text \<open>The same world, with other bytes behind the same member names of \<^verbatim>\<open>a.zip\<close>.\<close>

definition other_world :: world where
  "other_world =
     example_world\<lparr>disk := (disk example_world)
       (''a.zip'' \<mapsto> Regular (SevenZ
          [(''game.iso'', Data ''J''), (''readme.txt'', SevenZ [] True), (''track.bin'', Data ''t'')]
          False))\<rparr>"

text \<open>The example tree as another enumeration order gives it.\<close>

definition games_reordered :: listing where
  "games_reordered =
     [(''z.cue'', File_entry),
      (''a.iso'', File_entry),
      (''GAME.ISO'', File_entry),
      (''sub'', Dir_entry
         [(''deep'', Dir_entry [(''d.chd'', File_entry)]),
          (''b.bin'', File_entry),
          (''c.txt'', File_entry)]),
      (''ln'', Link_entry)]"

definition reordered_world :: world where
  "reordered_world =
     example_world\<lparr>disk := (disk example_world)(''/games'' \<mapsto> Directory games_reordered)\<rparr>"

text \<open>
  A world where the archives are what their names say: \<^verbatim>\<open>a.zip\<close> and
  \<^verbatim>\<open>good.zip\<close> are well-formed archives in the zip format, \<^verbatim>\<open>good.7z\<close> holds the
  members of \<^verbatim>\<open>good.zip\<close> in the 7z format.
\<close>

definition zip_world :: world where
  "zip_world =
     \<lparr>disk = [''/games'' \<mapsto> Directory games,
              ''a.zip'' \<mapsto> Regular (Foreign Zip a_zip),
              ''good.zip'' \<mapsto> Regular (Foreign Zip good_zip),
              ''good.7z'' \<mapsto> Regular (SevenZ good_zip True)],
      cwd = ''/games'',
      stdout = []\<rparr>"

section \<open>Suffixes, joined paths and the two loops\<close>

lemma endswith1_suffix: "endswith1 s suf \<longleftrightarrow> suffix suf s"
proof
  assume "endswith1 s suf"
  then have "s = take (length s - length suf) s @ suf"
    by (metis append_take_drop_id endswith1_def)
  then show "suffix suf s" by (rule suffixI)
next
  assume "suffix suf s"
  then obtain zs where "s = zs @ suf" by (auto simp: suffix_def)
  then show "endswith1 s suf" by (simp add: endswith1_def)
qed

lemma endswith_suffix: "endswith s sufs \<longleftrightarrow> (\<exists>suf \<in> set sufs. suffix suf s)"
  by (simp add: endswith_def list_ex_iff endswith1_suffix)

lemma suffix_join: "suffix b (join a b)"
  by (simp add: join_def suffix_def)

lemma endswith_join: "endswith b sufs \<Longrightarrow> endswith (join a b) sufs"
  unfolding endswith_suffix using suffix_join suffix_order.trans by blast

text \<open>
  The script tests the whole path for an archive suffix; as no suffix holds a separator,
  that is the test of the name.
\<close>

lemma prefix_takeWhile:
  "\<forall>x \<in> set xs. P x \<Longrightarrow> prefix xs (takeWhile P ys) \<longleftrightarrow> prefix xs ys"
proof (induction xs arbitrary: ys)
  case Nil
  then show ?case by simp
next
  case (Cons x xs)
  then show ?case by (cases ys) auto
qed

lemma suffix_basename:
  assumes "CHR ''/'' \<notin> set suf"
  shows "suffix suf (basename p) \<longleftrightarrow> suffix suf p"
proof -
  from assms have "\<forall>x \<in> set (rev suf). x \<noteq> CHR ''/''" by auto
  then have "prefix (rev suf) (takeWhile (\<lambda>c. c \<noteq> CHR ''/'') (rev p))
      \<longleftrightarrow> prefix (rev suf) (rev p)"
    by (rule prefix_takeWhile)
  then show ?thesis by (simp add: basename_def suffix_to_prefix)
qed

lemma endswith_basename_archives:
  "endswith (basename p) supported_archives \<longleftrightarrow> endswith p supported_archives"
  by (simp add: endswith_suffix supported_archives_def suffix_basename)

lemma scan_files_eq:
  "scan_files root files acc =
     acc @ map (join root) (filter (\<lambda>file. endswith file supported_discs) files)"
  by (induction files arbitrary: acc) auto

lemma scan_walk_eq:
  "scan_walk ts acc =
     acc @ concat (map (\<lambda>(root, dirs, files).
              map (join root) (filter (\<lambda>file. endswith file supported_discs) files)) ts)"
  by (induction ts arbitrary: acc) (auto simp: scan_files_eq)

lemma set_scan_walk:
  "set (scan_walk ts []) =
     {join root file | root dirs files file.
        (root, dirs, files) \<in> set ts \<and> file \<in> set files \<and> endswith file supported_discs}"
  by (auto simp: scan_walk_eq)

lemma set_filenames: "n \<in> set (filenames l) \<longleftrightarrow> (n, File_entry) \<in> set l"
  by (force simp: filenames_def)

lemma subtree_file_unfold:
  "subtree_file dir l root n \<longleftrightarrow>
     (root = dir \<and> (n, File_entry) \<in> set l)
     \<or> (\<exists>d sub. (d, Dir_entry sub) \<in> set l \<and> subtree_file (join dir d) sub root n)"
proof
  assume "subtree_file dir l root n"
  then show "(root = dir \<and> (n, File_entry) \<in> set l)
     \<or> (\<exists>d sub. (d, Dir_entry sub) \<in> set l \<and> subtree_file (join dir d) sub root n)"
    by cases auto
next
  assume "(root = dir \<and> (n, File_entry) \<in> set l)
     \<or> (\<exists>d sub. (d, Dir_entry sub) \<in> set l \<and> subtree_file (join dir d) sub root n)"
  then show "subtree_file dir l root n"
    by (auto intro: subtree_file.intros)
qed

lemma walk_files:
  "(\<exists>dirs files. (root, dirs, files) \<in> set (walk dir l) \<and> n \<in> set files)
     \<longleftrightarrow> subtree_file dir l root n"
  "(\<exists>dirs files. (root, dirs, files) \<in> set (walk_subdirs dir l) \<and> n \<in> set files)
     \<longleftrightarrow> (\<exists>d sub. (d, Dir_entry sub) \<in> set l \<and> subtree_file (join dir d) sub root n)"
proof (induction dir l and dir l rule: walk_walk_subdirs.induct)
  case (1 dir l)
  have "(\<exists>dirs files. (root, dirs, files) \<in> set (walk dir l) \<and> n \<in> set files)
      \<longleftrightarrow> (root = dir \<and> n \<in> set (filenames l))
        \<or> (\<exists>dirs files. (root, dirs, files) \<in> set (walk_subdirs dir l) \<and> n \<in> set files)"
    by (auto simp: walk.simps)
  also have "\<dots> \<longleftrightarrow> (root = dir \<and> (n, File_entry) \<in> set l)
        \<or> (\<exists>d sub. (d, Dir_entry sub) \<in> set l \<and> subtree_file (join dir d) sub root n)"
    by (simp only: 1 set_filenames)
  also have "\<dots> \<longleftrightarrow> subtree_file dir l root n"
    by (simp only: subtree_file_unfold [symmetric])
  finally show ?case .
next
  case (2 dir)
  show ?case by simp
next
  case (3 dir d sub rest)
  then show ?case by auto
next
  case (4 dir d rest)
  then show ?case by auto
next
  case (5 dir d rest)
  then show ?case by auto
qed


lemma search_directory:
  assumes "disk w D = Some (Directory l)"
  shows "search_path_for_discs D w = (Inr (scan_walk (walk D l) []), w)"
  using assms by (simp add: search_path_for_discs_def isdir_def os_walk_def)

lemma set_search_directory:
  "set (scan_walk (walk D l) []) =
     {join dir n | dir n. subtree_file D l dir n \<and> endswith n supported_discs}"
proof -
  have "set (scan_walk (walk D l) []) =
      {join dir n | dir n. (\<exists>dirs files. (dir, dirs, files) \<in> set (walk D l) \<and> n \<in> set files)
          \<and> endswith n supported_discs}"
    unfolding set_scan_walk by blast
  then show ?thesis by (simp only: walk_files)
qed

text \<open>Valid names are relative, so that joining only appends.\<close>

lemma valid_name_relative: "valid_name n \<Longrightarrow> \<not> startswith n ''/''"
  by (cases n) (auto simp: valid_name_def startswith_def)

lemma prefix_join: "\<not> startswith b ''/'' \<Longrightarrow> prefix a (join a b)"
  by (simp add: join_def)

lemma valid_listing_name: "valid_listing l \<Longrightarrow> (n, e) \<in> set l \<Longrightarrow> valid_name n"
proof (induction l)
  case Nil
  then show ?case by simp
next
  case (Cons a l)
  obtain m e' where a: "a = (m, e')" by (cases a)
  from Cons.prems(1) have "valid_name m" and "valid_listing l"
    unfolding a by (cases e'; simp)+
  with Cons.IH Cons.prems(2) show ?case
    unfolding a by auto
qed

lemma valid_listing_sub:
  "valid_listing l \<Longrightarrow> (d, Dir_entry sub) \<in> set l \<Longrightarrow> valid_listing sub"
proof (induction l)
  case Nil
  then show ?case by simp
next
  case (Cons a l)
  obtain m e' where a: "a = (m, e')" by (cases a)
  from Cons.prems(1) have "valid_listing l"
    unfolding a by (cases e'; simp)
  moreover from Cons.prems(1) have "e' = Dir_entry sub \<Longrightarrow> valid_listing sub"
    unfolding a by simp
  ultimately show ?case
    using Cons.IH Cons.prems(2) unfolding a by auto
qed


lemma subtree_file_prefix:
  "subtree_file D l dir n \<Longrightarrow> valid_listing l \<Longrightarrow> prefix D dir \<and> valid_name n"
proof (induction rule: subtree_file.induct)
  case (here n l dir)
  then show ?case by (auto dest: valid_listing_name)
next
  case (below d sub l dir d' n)
  from below.hyps(1) below.prems have "valid_name d" and "valid_listing sub"
    by (auto dest: valid_listing_name valid_listing_sub)
  with below.IH have "prefix (join dir d) d'" and "valid_name n" by simp_all
  moreover from \<open>valid_name d\<close> have "prefix dir (join dir d)"
    by (simp add: prefix_join valid_name_relative)
  ultimately show ?case by (auto intro: prefix_order.trans)
qed

text \<open>
  On valid names the script's join is the full path of the specification, and the two
  descriptions of the files of a subtree agree.
\<close>

lemma endswith1_slash: "endswith1 a ''/'' \<longleftrightarrow> a \<noteq> [] \<and> last a = CHR ''/''"
proof (cases a rule: rev_cases)
  case Nil
  then show ?thesis by (simp add: endswith1_def)
next
  case (snoc xs x)
  then show ?thesis by (simp add: endswith1_def)
qed

lemma join_entry_path: "valid_name n \<Longrightarrow> join dir n = entry_path dir n"
  by (auto simp: join_def entry_path_def endswith1_slash valid_name_relative)

lemma subtree_file_files_below:
  "subtree_file D l dir n \<Longrightarrow> valid_listing l \<Longrightarrow> files_below D l dir n"
proof (induction rule: subtree_file.induct)
  case (here n l dir)
  then show ?case by (auto intro: files_below.top)
next
  case (below d sub l dir d' n)
  from below.hyps(1) below.prems have "valid_name d" and "valid_listing sub"
    by (auto dest: valid_listing_name valid_listing_sub)
  with below.IH have "files_below (entry_path dir d) sub d' n"
    by (simp add: join_entry_path)
  with below.hyps(1) show ?case by (rule files_below.deeper)
qed

lemma files_below_subtree_file:
  "files_below D l dir n \<Longrightarrow> valid_listing l \<Longrightarrow> subtree_file D l dir n"
proof (induction rule: files_below.induct)
  case (top n l dir)
  then show ?case by (auto intro: subtree_file.here)
next
  case (deeper d sub l dir d' n)
  from deeper.hyps(1) deeper.prems have "valid_name d" and "valid_listing sub"
    by (auto dest: valid_listing_name valid_listing_sub)
  with deeper.IH have "subtree_file (join dir d) sub d' n"
    by (simp add: join_entry_path)
  with deeper.hyps(1) show ?case by (rule subtree_file.below)
qed

lemma files_below_valid_name:
  "files_below D l dir n \<Longrightarrow> valid_listing l \<Longrightarrow> valid_name n"
  by (drule (1) files_below_subtree_file) (drule (1) subtree_file_prefix, simp)

lemma set_search_directory_spec:
  assumes "valid_listing l"
  shows "set (scan_walk (walk D l) []) =
     {entry_path dir n | dir n. files_below D l dir n
        \<and> (\<exists>suf \<in> {''.iso'', ''.bin'', ''.cue'', ''.gdi'', ''.raw'', ''.chd''}. suffix suf n)}"
    (is "?L = ?R")
proof (intro set_eqI iffI)
  fix s assume "s \<in> ?L"
  then obtain dir n where s: "s = join dir n" and f: "subtree_file D l dir n"
    and e: "endswith n supported_discs"
    by (auto simp: set_search_directory)
  from f assms have "files_below D l dir n" by (rule subtree_file_files_below)
  moreover from f assms have "valid_name n" by (auto dest: subtree_file_prefix)
  moreover from e have "\<exists>suf \<in> {''.iso'', ''.bin'', ''.cue'', ''.gdi'', ''.raw'', ''.chd''}. suffix suf n"
    by (simp add: endswith_suffix supported_discs_def)
  ultimately show "s \<in> ?R" using s by (auto simp: join_entry_path)
next
  fix s assume "s \<in> ?R"
  then obtain dir n where s: "s = entry_path dir n" and f: "files_below D l dir n"
    and e: "\<exists>suf \<in> {''.iso'', ''.bin'', ''.cue'', ''.gdi'', ''.raw'', ''.chd''}. suffix suf n"
    by auto
  from f assms have "subtree_file D l dir n" by (rule files_below_subtree_file)
  moreover from f assms have "valid_name n" by (rule files_below_valid_name)
  then have "s = join dir n" by (simp add: s join_entry_path)
  moreover from e have "endswith n supported_discs"
    by (simp add: endswith_suffix supported_discs_def)
  ultimately have "\<exists>dir n. s = join dir n \<and> subtree_file D l dir n
      \<and> endswith n supported_discs"
    by blast
  then show "s \<in> ?L" by (simp add: set_search_directory)
qed

lemmas eval_defs =
  example_world_def games_def a_zip_def good_zip_def other_world_def
  search_path_for_discs_def isdir_def isfile_def os_walk_def open_archive_def
  dirnames_def filenames_def endswith_def endswith1_def startswith_def join_def
  supported_discs_def supported_archives_def walk.simps

section \<open>Scanning a directory\<close>

text \<open>On the example tree: the link and the upper-case name are left out.\<close>

lemma search_games:
  "search_path_for_discs ''/games'' example_world =
     (Inr [''/games/a.iso'', ''/games/z.cue'', ''/games/sub/b.bin'', ''/games/sub/deep/d.chd''],
      example_world)"
  by (simp add: eval_defs)

text \<open>
  C1. For every existing directory \<open>D\<close>, \<open>search_path_for_discs D\<close> returns, and what it
  returns is exactly the set of the files of the subtree of \<open>D\<close>, at any depth, whose name
  ends with one of \<^verbatim>\<open>.iso\<close>, \<^verbatim>\<open>.bin\<close>, \<^verbatim>\<open>.cue\<close>, \<^verbatim>\<open>.gdi\<close>, \<^verbatim>\<open>.raw\<close>,
  \<^verbatim>\<open>.chd\<close>, each as its full path: the path of its directory, a separator, its name.
  No other string is returned, and the world is left as it was.
\<close>

theorem search_directory_exact:
  assumes "disk w D = Some (Directory l)" and "valid_listing l"
  shows "\<exists>found. search_path_for_discs D w = (Inr found, w)
           \<and> set found = {entry_path dir n | dir n. files_below D l dir n
                 \<and> (\<exists>suf \<in> {''.iso'', ''.bin'', ''.cue'', ''.gdi'', ''.raw'', ''.chd''}.
                       suffix suf n)}"
proof (intro exI conjI)
  show "search_path_for_discs D w = (Inr (scan_walk (walk D l) []), w)"
    using assms(1) by (rule search_directory)
  show "set (scan_walk (walk D l) []) =
      {entry_path dir n | dir n. files_below D l dir n
         \<and> (\<exists>suf \<in> {''.iso'', ''.bin'', ''.cue'', ''.gdi'', ''.raw'', ''.chd''}. suffix suf n)}"
    using assms(2) by (rule set_search_directory_spec)
qed

theorem search_directory_exact_witness:
  "disk example_world ''/games'' = Some (Directory games)
   \<and> valid_listing games
   \<and> search_path_for_discs ''/games'' example_world =
       (Inr [''/games/a.iso'', ''/games/z.cue'', ''/games/sub/b.bin'', ''/games/sub/deep/d.chd''],
        example_world)
   \<and> {entry_path dir n | dir n. files_below ''/games'' games dir n
         \<and> (\<exists>suf \<in> {''.iso'', ''.bin'', ''.cue'', ''.gdi'', ''.raw'', ''.chd''}. suffix suf n)}
       = {''/games/a.iso'', ''/games/z.cue'', ''/games/sub/b.bin'', ''/games/sub/deep/d.chd''}"
proof -
  have h1: "disk example_world ''/games'' = Some (Directory games)"
    by (simp add: example_world_def)
  have h2: "valid_listing games"
    by (simp add: games_def valid_name_def)
  from search_directory_exact [OF h1 h2] obtain found where
    "search_path_for_discs ''/games'' example_world = (Inr found, example_world)"
    and s: "set found = {entry_path dir n | dir n. files_below ''/games'' games dir n
         \<and> (\<exists>suf \<in> {''.iso'', ''.bin'', ''.cue'', ''.gdi'', ''.raw'', ''.chd''}. suffix suf n)}"
    by blast
  then have "found =
      [''/games/a.iso'', ''/games/z.cue'', ''/games/sub/b.bin'', ''/games/sub/deep/d.chd'']"
    by (simp add: search_games)
  with s have "{entry_path dir n | dir n. files_below ''/games'' games dir n
         \<and> (\<exists>suf \<in> {''.iso'', ''.bin'', ''.cue'', ''.gdi'', ''.raw'', ''.chd''}. suffix suf n)}
       = {''/games/a.iso'', ''/games/z.cue'', ''/games/sub/b.bin'', ''/games/sub/deep/d.chd''}"
    by simp
  with h1 h2 search_games show ?thesis by simp
qed


section \<open>Scanning an archive\<close>

text \<open>
  Of a file in the 7z format whose name ends with a supported archive suffix, the scan
  returns the member names that end with a supported disc suffix, in listing order. Of
  a well-formed archive in another format it returns nothing: the exception of
  \<^verbatim>\<open>py7zr.SevenZipFile\<close> leaves the function.
\<close>

lemma search_sevenzip_listing:
  assumes "disk w path = Some (Regular (SevenZ es ok))"
    and "endswith (basename path) supported_archives"
  shows "search_path_for_discs path w =
           (Inr (filter (\<lambda>entry. endswith entry supported_discs) (map fst es)), w)"
  using assms
  by (simp add: search_path_for_discs_def isdir_def isfile_def open_archive_def
      endswith_basename_archives)

lemma search_foreign_archive:
  assumes "disk w path = Some (Regular (Foreign f es))"
    and "endswith (basename path) supported_archives"
  shows "search_path_for_discs path w = (Inl Bad7zFile, w)"
  using assms
  by (simp add: search_path_for_discs_def isdir_def isfile_def open_archive_def
      endswith_basename_archives)

text \<open>
  C2. For every existing regular file whose name ends with one of \<^verbatim>\<open>.7z\<close>,
  \<^verbatim>\<open>.gz\<close>, \<^verbatim>\<open>.rar\<close>, \<^verbatim>\<open>.zip\<close>, the scan is to list the archive's member names and
  return those that end with a supported disc suffix: \<^verbatim>\<open>["game.iso", "track.bin"]\<close> for
  an archive \<^verbatim>\<open>a.zip\<close> with the members \<^verbatim>\<open>game.iso\<close>, \<^verbatim>\<open>readme.txt\<close>,
  \<^verbatim>\<open>track.bin\<close>. The code does not: it opens every archive with py7zr, which reads
  the 7z format only, and on the zip archive \<^verbatim>\<open>a.zip\<close> with these members the scan
  raises \<^verbatim>\<open>Bad7zFile\<close> and returns no list.
\<close>

theorem search_zip_archive_raises:
  "disk zip_world ''a.zip'' = Some (Regular (Foreign Zip a_zip))
   \<and> map fst a_zip = [''game.iso'', ''readme.txt'', ''track.bin'']
   \<and> endswith (basename ''a.zip'') supported_archives
   \<and> search_path_for_discs ''a.zip'' zip_world = (Inl Bad7zFile, zip_world)"
proof -
  have h1: "disk zip_world ''a.zip'' = Some (Regular (Foreign Zip a_zip))"
    by (simp add: zip_world_def)
  have h2: "endswith (basename ''a.zip'') supported_archives"
    by (simp add: basename_def endswith_def endswith1_def supported_archives_def)
  from h1 h2 have "search_path_for_discs ''a.zip'' zip_world = (Inl Bad7zFile, zip_world)"
    by (rule search_foreign_archive)
  with h1 h2 show ?thesis by (simp add: a_zip_def)
qed

section \<open>Extraction failures\<close>

text \<open>
  C3. On every failure during open or extraction, \<open>extract_archive\<close> is to print a
  message naming the archive path and to raise nothing. The code does not on an archive
  that opens and whose extraction fails: the handler adds the message to the archive
  object, which the \<^verbatim>\<open>with\<close> clause bound to the name of the argument, the
  \<^verbatim>\<open>TypeError\<close> of that addition leaves the function, and nothing is printed.
\<close>

theorem extract_failure_raises:
  "open_archive example_world ''damaged.7z'' = Inr (SevenZipFile a_zip False)
   \<and> fst (extractall (SevenZipFile a_zip False) example_world) = Inl CrcError
   \<and> fst (extract_archive ''damaged.7z'' example_world) = Inl TypeError
   \<and> stdout (snd (extract_archive ''damaged.7z'' example_world)) = []"
  by (simp add: extract_archive_def except_handler_def open_archive_def example_world_def)

text \<open>A failure of the open itself is reported and swallowed.\<close>

lemma extract_open_failure:
  assumes "open_archive w archive = Inl e"
  shows "extract_archive archive w = (Inr (), print (''Error extracting '' @ archive) w)"
  using assms by (simp add: extract_archive_def except_handler_def)

lemma extract_corrupt:
  "extract_archive ''corrupt.7z'' example_world =
     (Inr (), example_world\<lparr>stdout := [''Error extracting corrupt.7z'']\<rparr>)"
  by (simp add: extract_archive_def except_handler_def open_archive_def example_world_def
      print_def)

section \<open>Paths that are no directory and no archive\<close>

text \<open>
  C4. For every path that does not exist, and for every existing regular file whose name
  does not end with a supported archive suffix, \<open>search_path_for_discs\<close> returns the
  empty sequence and raises nothing.
\<close>

theorem search_missing_or_unsupported:
  assumes "disk w path = None
           \<or> (\<exists>c. disk w path = Some (Regular c)
                \<and> \<not> endswith (basename path) supported_archives)"
  shows "search_path_for_discs path w = (Inr [], w)"
  using assms
  by (auto simp: search_path_for_discs_def isdir_def isfile_def endswith_basename_archives)

theorem search_missing_or_unsupported_witness:
  "disk example_world ''/nowhere'' = None
   \<and> search_path_for_discs ''/nowhere'' example_world = (Inr [], example_world)
   \<and> disk example_world ''notes.txt'' = Some (Regular (Data ''text''))
   \<and> \<not> endswith (basename ''notes.txt'') supported_archives
   \<and> search_path_for_discs ''notes.txt'' example_world = (Inr [], example_world)"
proof -
  have h1: "disk example_world ''/nowhere'' = None"
    by (simp add: example_world_def)
  have h2: "disk example_world ''notes.txt'' = Some (Regular (Data ''text''))"
    by (simp add: example_world_def)
  have h3: "\<not> endswith (basename ''notes.txt'') supported_archives"
    by (simp add: basename_def endswith_def endswith1_def supported_archives_def)
  from h1 have r1: "search_path_for_discs ''/nowhere'' example_world = (Inr [], example_world)"
    by (intro search_missing_or_unsupported) simp
  from h2 h3 have r2: "search_path_for_discs ''notes.txt'' example_world = (Inr [], example_world)"
    by (intro search_missing_or_unsupported) simp
  from h1 h2 h3 r1 r2 show ?thesis by simp
qed

section \<open>Every result carries a disc suffix\<close>

lemma suffix_last: "suffix suf s \<Longrightarrow> suf \<noteq> [] \<Longrightarrow> last s = last suf"
  by (auto simp: suffix_def)

lemma disc_suffix_last:
  assumes "endswith s supported_discs"
  shows "last s \<in> {CHR ''o'', CHR ''n'', CHR ''e'', CHR ''i'', CHR ''w'', CHR ''d''}"
proof -
  from assms obtain suf where "suf \<in> set supported_discs" and "suffix suf s"
    by (auto simp: endswith_suffix)
  then show ?thesis
    by (auto simp: supported_discs_def dest: suffix_last)
qed

lemma disc_suffix_case_sensitive:
  assumes "endswith s supported_discs"
  shows "\<not> endswith1 s ''GAME.ISO''"
proof
  assume "endswith1 s ''GAME.ISO''"
  then have "last s = CHR ''O''"
    by (auto simp: endswith1_suffix dest: suffix_last)
  with disc_suffix_last [OF assms] show False by simp
qed

lemma scan_walk_suffix: "s \<in> set (scan_walk ts []) \<Longrightarrow> endswith s supported_discs"
  by (auto simp: set_scan_walk intro: endswith_join)

lemma search_found_suffix:
  assumes "fst (search_path_for_discs path w) = Inr found" and "s \<in> set found"
  shows "endswith s supported_discs"
  using assms
  by (auto simp: search_path_for_discs_def scan_walk_suffix
      split: if_splits sum.splits elim!: getnames.elims)

text \<open>
  C5. For every path, every string that \<open>search_path_for_discs\<close> returns ends with one
  of the supported disc suffixes, compared character by character: no returned string
  ends with \<^verbatim>\<open>GAME.ISO\<close>, so a file of that name is never among the results.
\<close>

theorem found_discs_suffix:
  assumes "fst (search_path_for_discs path w) = Inr found" and "s \<in> set found"
  shows "endswith s supported_discs \<and> \<not> endswith1 s ''GAME.ISO''"
  using assms search_found_suffix disc_suffix_case_sensitive by blast

theorem found_discs_suffix_witness:
  "fst (search_path_for_discs ''/games'' example_world) =
      Inr [''/games/a.iso'', ''/games/z.cue'', ''/games/sub/b.bin'', ''/games/sub/deep/d.chd'']
   \<and> (''GAME.ISO'', File_entry) \<in> set games
   \<and> endswith ''/games/sub/b.bin'' supported_discs
   \<and> \<not> endswith1 ''/games/sub/b.bin'' ''GAME.ISO''"
proof -
  have h: "fst (search_path_for_discs ''/games'' example_world) =
      Inr [''/games/a.iso'', ''/games/z.cue'', ''/games/sub/b.bin'', ''/games/sub/deep/d.chd'']"
    by (simp add: search_games)
  have "(''GAME.ISO'', File_entry) \<in> set games"
    by (simp add: games_def)
  with h found_discs_suffix [OF h, of "''/games/sub/b.bin''"] show ?thesis by simp
qed

section \<open>The scan changes nothing\<close>

lemma search_world: "snd (search_path_for_discs path w) = w"
  by (simp add: search_path_for_discs_def split: sum.splits)

text \<open>
  C7. For every path, \<open>search_path_for_discs\<close> leaves the world as it found it: the
  disk, the working directory and the output are the same after the call, whether it
  returns or raises. Of an archive it reads the member names only: with other bytes
  behind the same names, and whether or not the payload can be unpacked, the result is
  the same.
\<close>

theorem search_read_only:
  "snd (search_path_for_discs path w) = w
   \<and> (\<forall>es ok w' es' ok'.
        disk w path = Some (Regular (SevenZ es ok))
        \<longrightarrow> disk w' path = Some (Regular (SevenZ es' ok'))
        \<longrightarrow> map fst es' = map fst es
        \<longrightarrow> fst (search_path_for_discs path w') = fst (search_path_for_discs path w))"
proof (intro conjI allI impI)
  show "snd (search_path_for_discs path w) = w"
    by (rule search_world)
next
  fix es ok es' ok' and w' :: world
  assume "disk w path = Some (Regular (SevenZ es ok))"
    and "disk w' path = Some (Regular (SevenZ es' ok'))"
    and "map fst es' = map fst es"
  then show "fst (search_path_for_discs path w') = fst (search_path_for_discs path w)"
    by (simp add: search_path_for_discs_def isdir_def isfile_def open_archive_def)
qed

theorem search_read_only_witness:
  "snd (search_path_for_discs ''a.zip'' example_world) = example_world
   \<and> disk example_world ''a.zip'' \<noteq> disk other_world ''a.zip''
   \<and> fst (search_path_for_discs ''a.zip'' other_world)
       = fst (search_path_for_discs ''a.zip'' example_world)"
proof -
  have h1: "disk example_world ''a.zip'' = Some (Regular (SevenZ a_zip True))"
    by (simp add: example_world_def)
  have h2: "disk other_world ''a.zip'' = Some (Regular (SevenZ
          [(''game.iso'', Data ''J''), (''readme.txt'', SevenZ [] True), (''track.bin'', Data ''t'')]
          False))"
    by (simp add: other_world_def)
  have h3: "map fst [(''game.iso'', Data ''J''), (''readme.txt'', SevenZ [] True),
      (''track.bin'', Data ''t'')] = map fst a_zip"
    by (simp add: a_zip_def)
  from search_read_only [of "''a.zip''" example_world] h1 h2 h3
  have "snd (search_path_for_discs ''a.zip'' example_world) = example_world
    \<and> fst (search_path_for_discs ''a.zip'' other_world)
       = fst (search_path_for_discs ''a.zip'' example_world)"
    by blast
  moreover have "disk example_world ''a.zip'' \<noteq> disk other_world ''a.zip''"
    by (simp add: h1 h2)
  ultimately show ?thesis by simp
qed

section \<open>Results lie under the scanned directory\<close>

text \<open>
  C10. For every existing directory \<open>D\<close> whose listing holds valid names, every string
  that \<open>search_path_for_discs D\<close> returns starts with \<open>D\<close>: it is the join of the path
  of a directory of the subtree, which starts with \<open>D\<close>, with the name of a file of that
  directory.
\<close>

theorem results_under_root:
  assumes "disk w D = Some (Directory l)"
    and "valid_listing l"
    and "fst (search_path_for_discs D w) = Inr found"
    and "s \<in> set found"
  shows "prefix D s
         \<and> (\<exists>dir n. s = join dir n \<and> prefix D dir \<and> subtree_file D l dir n)"
proof -
  from assms(1,3) have "found = scan_walk (walk D l) []"
    by (simp add: search_directory)
  with assms(4) obtain dir n where s: "s = join dir n" and f: "subtree_file D l dir n"
    by (auto simp: set_search_directory)
  from subtree_file_prefix [OF f assms(2)] have p: "prefix D dir" and v: "valid_name n"
    by simp_all
  from v have "prefix dir (join dir n)"
    by (simp add: prefix_join valid_name_relative)
  with p s have "prefix D s" by (auto intro: prefix_order.trans)
  with s p f show ?thesis by blast
qed

theorem results_under_root_witness:
  "disk example_world ''/games'' = Some (Directory games)
   \<and> valid_listing games
   \<and> fst (search_path_for_discs ''/games'' example_world) =
      Inr [''/games/a.iso'', ''/games/z.cue'', ''/games/sub/b.bin'', ''/games/sub/deep/d.chd'']
   \<and> prefix ''/games'' ''/games/sub/deep/d.chd''
   \<and> (\<exists>dir n. ''/games/sub/deep/d.chd'' = join dir n \<and> prefix ''/games'' dir
         \<and> subtree_file ''/games'' games dir n)"
proof -
  have h1: "disk example_world ''/games'' = Some (Directory games)"
    by (simp add: example_world_def)
  have h2: "valid_listing games"
    by (simp add: games_def valid_name_def)
  have h3: "fst (search_path_for_discs ''/games'' example_world) =
      Inr [''/games/a.iso'', ''/games/z.cue'', ''/games/sub/b.bin'', ''/games/sub/deep/d.chd'']"
    by (simp add: search_games)
  from results_under_root [OF h1 h2 h3, of "''/games/sub/deep/d.chd''"] h1 h2 h3
  show ?thesis by simp
qed

section \<open>The summary line of the script\<close>

lemma report_found:
  assumes "fst (search_path_for_discs path w) = Inr found"
  shows "report path descr w =
     (Inr (), print (if length found = 0 then ''No supported disc files found in '' @ descr
                     else ''Found '' @ py_str (length found) @ '' supported disc files in ''
                          @ descr) w)"
proof -
  have "search_path_for_discs path w = (Inr found, w)"
    using assms search_world [of path w] by (simp add: prod_eq_iff)
  then show ?thesis by (simp add: report_def)
qed

lemma report_raises:
  assumes "fst (search_path_for_discs path w) = Inl e"
  shows "report path descr w = (Inl e, w)"
proof -
  have "search_path_for_discs path w = (Inl e, w)"
    using assms search_world [of path w] by (simp add: prod_eq_iff)
  then show ?thesis by (simp add: report_def)
qed

lemma py_str_4: "py_str 4 = ''4''"
  by (subst py_str.simps) (simp add: digit_def)

lemma py_str_1203: "py_str 1203 = ''1203''"
  by (simp add: py_str.simps digit_def)

lemma search_notes:
  "search_path_for_discs ''notes.txt'' example_world = (Inr [], example_world)"
  by (simp add: eval_defs)

lemma search_corrupt:
  "search_path_for_discs ''corrupt.7z'' example_world = (Inl Bad7zFile, example_world)"
  by (simp add: eval_defs)

text \<open>
  C9, as amended. With no positional argument the script scans the current working
  directory, with one it scans that path; whenever the scan returns, the script prints
  exactly one line and ends normally: \<^verbatim>\<open>No supported disc files found in\<close> followed by
  the description when nothing was found, \<^verbatim>\<open>Found N supported disc files in\<close> followed
  by the description when \<open>N > 0\<close> were, the description being \<^verbatim>\<open>current directory\<close>
  or the path argument as given.
\<close>

theorem main_summary_line:
  assumes "argv \<noteq> []"
    and "path = (if length argv = 1 then cwd w else argv ! 1)"
    and "descr = (if length argv = 1 then ''current directory'' else argv ! 1)"
    and "fst (search_path_for_discs path w) = Inr found"
  shows "main argv w =
     (Inr (), print (if length found = 0 then ''No supported disc files found in '' @ descr
                     else ''Found '' @ py_str (length found) @ '' supported disc files in ''
                          @ descr) w)"
proof (cases "length argv = 1")
  case True
  with assms show ?thesis by (simp add: main_def report_found)
next
  case False
  with assms(1) have "\<not> length argv < 2"
    by (cases argv) auto
  with False assms show ?thesis by (simp add: main_def report_found)
qed

theorem main_summary_line_witness:
  "main [''Optimize-Disc.py''] example_world =
     (Inr (), example_world\<lparr>stdout := [''Found 4 supported disc files in current directory'']\<rparr>)
   \<and> main [''Optimize-Disc.py'', ''notes.txt''] example_world =
     (Inr (), example_world\<lparr>stdout := [''No supported disc files found in notes.txt'']\<rparr>)"
proof -
  let ?found = "[''/games/a.iso'', ''/games/z.cue'', ''/games/sub/b.bin'', ''/games/sub/deep/d.chd'']"
  have c: "cwd example_world = ''/games''"
    by (simp add: example_world_def)
  have h: "fst (search_path_for_discs (cwd example_world) example_world) = Inr ?found"
    by (simp only: c search_games fst_conv)
  have len: "length ?found = 4"
    by simp
  have "main [''Optimize-Disc.py''] example_world =
     (Inr (), print (if length ?found = 0
                     then ''No supported disc files found in '' @ ''current directory''
                     else ''Found '' @ py_str (length ?found) @ '' supported disc files in ''
                          @ ''current directory'') example_world)"
    by (rule main_summary_line [OF _ _ _ h]) simp_all
  then have 1: "main [''Optimize-Disc.py''] example_world =
     (Inr (), example_world\<lparr>stdout := [''Found 4 supported disc files in current directory'']\<rparr>)"
    unfolding len by (simp add: py_str_4 print_def example_world_def)
  have h': "fst (search_path_for_discs ''notes.txt'' example_world) = Inr []"
    by (simp only: search_notes fst_conv)
  have "main [''Optimize-Disc.py'', ''notes.txt''] example_world =
     (Inr (), print (if length ([] :: string list) = 0
                     then ''No supported disc files found in '' @ ''notes.txt''
                     else ''Found '' @ py_str (length ([] :: string list))
                          @ '' supported disc files in '' @ ''notes.txt'') example_world)"
    by (rule main_summary_line [OF _ _ _ h']) simp_all
  then have 2: "main [''Optimize-Disc.py'', ''notes.txt''] example_world =
     (Inr (), example_world\<lparr>stdout := [''No supported disc files found in notes.txt'']\<rparr>)"
    by (simp add: print_def example_world_def)
  from 1 2 show ?thesis by simp
qed

text \<open>
  One summary line for every scan, whether it returns or not, does not hold: on a file
  with an archive suffix that py7zr does not open, the exception ends the script and
  nothing is printed.
\<close>

theorem main_unreadable_archive_counterexample:
  "main [''Optimize-Disc.py'', ''corrupt.7z''] example_world = (Inl Bad7zFile, example_world)
   \<and> stdout example_world = []"
proof -
  have "report ''corrupt.7z'' ''corrupt.7z'' example_world = (Inl Bad7zFile, example_world)"
    by (rule report_raises) (simp only: search_corrupt fst_conv)
  then show ?thesis by (simp add: main_def example_world_def)
qed

section \<open>Scanning twice, and in another order\<close>

lemma subtree_file_set:
  assumes "set l' = set l"
  shows "subtree_file dir l' d n \<longleftrightarrow> subtree_file dir l d n"
proof -
  have "subtree_file dir l' d n \<longleftrightarrow>
      (d = dir \<and> (n, File_entry) \<in> set l')
      \<or> (\<exists>d0 sub. (d0, Dir_entry sub) \<in> set l' \<and> subtree_file (join dir d0) sub d n)"
    by (rule subtree_file_unfold)
  also have "\<dots> \<longleftrightarrow>
      (d = dir \<and> (n, File_entry) \<in> set l)
      \<or> (\<exists>d0 sub. (d0, Dir_entry sub) \<in> set l \<and> subtree_file (join dir d0) sub d n)"
    by (simp only: assms)
  also have "\<dots> \<longleftrightarrow> subtree_file dir l d n"
    by (rule subtree_file_unfold [symmetric])
  finally show ?thesis .
qed

lemma subtree_file_inside:
  assumes "\<And>dir. subtree_file dir sub' d n \<longleftrightarrow> subtree_file dir sub d n"
  shows "subtree_file dir (pre @ (x, Dir_entry sub') # post) d n
         \<longleftrightarrow> subtree_file dir (pre @ (x, Dir_entry sub) # post) d n"
proof -
  let ?l' = "pre @ (x, Dir_entry sub') # post" and ?l = "pre @ (x, Dir_entry sub) # post"
  have "subtree_file dir ?l' d n \<longleftrightarrow>
      (d = dir \<and> (n, File_entry) \<in> set ?l')
      \<or> (\<exists>d0 s. (d0, Dir_entry s) \<in> set ?l' \<and> subtree_file (join dir d0) s d n)"
    by (rule subtree_file_unfold)
  also have "\<dots> \<longleftrightarrow>
      (d = dir \<and> (n, File_entry) \<in> set ?l)
      \<or> (\<exists>d0 s. (d0, Dir_entry s) \<in> set ?l \<and> subtree_file (join dir d0) s d n)"
    using assms by auto
  also have "\<dots> \<longleftrightarrow> subtree_file dir ?l d n"
    by (rule subtree_file_unfold [symmetric])
  finally show ?thesis .
qed

lemma reordered_subtree_file:
  "reordered l l' \<Longrightarrow> subtree_file dir l' d n \<longleftrightarrow> subtree_file dir l d n"
proof (induction arbitrary: dir rule: reordered.induct)
  case (same l)
  show ?case by simp
next
  case (swap pre xs ys post)
  show ?case by (rule subtree_file_set) auto
next
  case (inside sub sub' pre x post)
  show ?case by (rule subtree_file_inside) (rule inside.IH)
next
  case (trans l l' l'')
  then show ?case by simp
qed

lemma search_reordered:
  assumes "disk w path = Some (Directory l)"
    and "disk w' path = Some (Directory l')"
    and "reordered l l'"
  shows "\<exists>found found'. fst (search_path_for_discs path w) = Inr found
           \<and> fst (search_path_for_discs path w') = Inr found' \<and> set found' = set found"
proof (intro exI conjI)
  show "fst (search_path_for_discs path w) = Inr (scan_walk (walk path l) [])"
    by (simp only: search_directory [OF assms(1)] fst_conv)
  show "fst (search_path_for_discs path w') = Inr (scan_walk (walk path l') [])"
    by (simp only: search_directory [OF assms(2)] fst_conv)
  show "set (scan_walk (walk path l') []) = set (scan_walk (walk path l) [])"
    by (simp only: set_search_directory reordered_subtree_file [OF assms(3)])
qed

lemma reordered_games: "reordered games games_reordered"
proof -
  let ?deep = "(''deep'', Dir_entry [(''d.chd'', File_entry)])"
  let ?files = "[(''b.bin'', File_entry), (''c.txt'', File_entry)]"
  let ?front = "[(''a.iso'', File_entry), (''GAME.ISO'', File_entry)]"
  let ?z = "(''z.cue'', File_entry)"
  have "reordered ([] @ ?files @ [?deep] @ []) ([] @ [?deep] @ ?files @ [])"
    by (rule reordered.swap)
  then have "reordered (?files @ [?deep]) (?deep # ?files)"
    by simp
  then have "reordered (?front @ (''sub'', Dir_entry (?files @ [?deep])) # [(''ln'', Link_entry), ?z])
                       (?front @ (''sub'', Dir_entry (?deep # ?files)) # [(''ln'', Link_entry), ?z])"
    by (rule reordered.inside)
  then have 1: "reordered games
      (?front @ (''sub'', Dir_entry (?deep # ?files)) # [(''ln'', Link_entry), ?z])"
    by (simp add: games_def)
  have "reordered
      ([] @ (?front @ (''sub'', Dir_entry (?deep # ?files)) # [(''ln'', Link_entry)]) @ [?z] @ [])
      ([] @ [?z] @ (?front @ (''sub'', Dir_entry (?deep # ?files)) # [(''ln'', Link_entry)]) @ [])"
    by (rule reordered.swap)
  then have 2: "reordered
      (?front @ (''sub'', Dir_entry (?deep # ?files)) # [(''ln'', Link_entry), ?z])
      games_reordered"
    by (simp add: games_reordered_def)
  from 1 2 show ?thesis by (rule reordered.trans)
qed

lemma search_games_reordered:
  "search_path_for_discs ''/games'' reordered_world =
     (Inr [''/games/z.cue'', ''/games/a.iso'', ''/games/sub/b.bin'', ''/games/sub/deep/d.chd''],
      reordered_world)"
  by (simp add: reordered_world_def games_reordered_def eval_defs)

text \<open>
  C8. A second call of \<open>search_path_for_discs\<close> on the same path, in the world the first
  call left, gives what the first call gave: the same results (or the same exception)
  and the same world. When the directory tree is the same and only enumerated in another
  order, the sequence returned may differ and the set of results is the same.
\<close>

theorem search_deterministic:
  "search_path_for_discs path (snd (search_path_for_discs path w))
     = search_path_for_discs path w
   \<and> (\<forall>l w' l'. disk w path = Some (Directory l)
         \<longrightarrow> disk w' path = Some (Directory l')
         \<longrightarrow> reordered l l'
         \<longrightarrow> (\<exists>found found'. fst (search_path_for_discs path w) = Inr found
               \<and> fst (search_path_for_discs path w') = Inr found' \<and> set found' = set found))"
proof (intro conjI allI impI)
  show "search_path_for_discs path (snd (search_path_for_discs path w))
      = search_path_for_discs path w"
    by (simp only: search_world)
next
  fix l l' and w' :: world
  assume "disk w path = Some (Directory l)" and "disk w' path = Some (Directory l')"
    and "reordered l l'"
  then show "\<exists>found found'. fst (search_path_for_discs path w) = Inr found
               \<and> fst (search_path_for_discs path w') = Inr found' \<and> set found' = set found"
    by (rule search_reordered)
qed

theorem search_deterministic_witness:
  "search_path_for_discs ''/games'' (snd (search_path_for_discs ''/games'' example_world))
     = search_path_for_discs ''/games'' example_world
   \<and> disk example_world ''/games'' = Some (Directory games)
   \<and> disk reordered_world ''/games'' = Some (Directory games_reordered)
   \<and> reordered games games_reordered
   \<and> (\<exists>found found'. fst (search_path_for_discs ''/games'' example_world) = Inr found
        \<and> fst (search_path_for_discs ''/games'' reordered_world) = Inr found'
        \<and> set found' = set found)
   \<and> fst (search_path_for_discs ''/games'' reordered_world)
       \<noteq> fst (search_path_for_discs ''/games'' example_world)"
proof -
  have h1: "disk example_world ''/games'' = Some (Directory games)"
    by (simp add: example_world_def)
  have h2: "disk reordered_world ''/games'' = Some (Directory games_reordered)"
    by (simp add: reordered_world_def)
  note h3 = reordered_games
  have "fst (search_path_for_discs ''/games'' reordered_world)
       \<noteq> fst (search_path_for_discs ''/games'' example_world)"
    by (simp add: search_games search_games_reordered)
  with search_deterministic [of "''/games''" example_world] h1 h2 h3 show ?thesis
    by blast
qed

section \<open>Extracting an archive\<close>

lemma extract_foreign_archive:
  assumes "disk w archive = Some (Regular (Foreign f es))"
  shows "extract_archive archive w = (Inr (), print (''Error extracting '' @ archive) w)"
  using assms by (simp add: extract_archive_def except_handler_def open_archive_def)

text \<open>
  C6. For every valid archive, \<open>extract_archive\<close> is to extract all members into the
  current working directory, with the archive's folders: all members of
  \<^verbatim>\<open>good.zip\<close> for \<^verbatim>\<open>extract_archive("good.zip")\<close>. The code does not: py7zr reads the
  7z format only, so on the well-formed zip archive \<^verbatim>\<open>good.zip\<close> the open raises, the
  handler prints \<^verbatim>\<open>Error extracting good.zip\<close>, and the disk is as before: no member
  is extracted.
\<close>

theorem extract_zip_archive_fails:
  "disk zip_world ''good.zip'' = Some (Regular (Foreign Zip good_zip))
   \<and> map fst good_zip = [''disc/game.cue'', ''disc/game.bin'', ''readme.txt'']
   \<and> extract_archive ''good.zip'' zip_world =
       (Inr (), zip_world\<lparr>stdout := [''Error extracting good.zip'']\<rparr>)
   \<and> disk (snd (extract_archive ''good.zip'' zip_world)) = disk zip_world
   \<and> disk zip_world ''/games/readme.txt'' = None"
proof -
  have h: "disk zip_world ''good.zip'' = Some (Regular (Foreign Zip good_zip))"
    by (simp add: zip_world_def)
  then have "extract_archive ''good.zip'' zip_world =
      (Inr (), print (''Error extracting '' @ ''good.zip'') zip_world)"
    by (rule extract_foreign_archive)
  then have e: "extract_archive ''good.zip'' zip_world =
       (Inr (), zip_world\<lparr>stdout := [''Error extracting good.zip'']\<rparr>)"
    by (simp add: print_def zip_world_def)
  have "disk zip_world ''/games/readme.txt'' = None"
    by (simp add: zip_world_def)
  with h e show ?thesis by (simp add: good_zip_def)
qed

text \<open>
  The same members in the 7z format are extracted: the folder is created, the files are
  written, and a scan of the working directory finds the disc images afterwards.
\<close>

lemma extract_good_7z:
  "fst (extract_archive ''good.7z'' zip_world) = Inr ()
   \<and> stdout (snd (extract_archive ''good.7z'' zip_world)) = []
   \<and> disk (snd (extract_archive ''good.7z'' zip_world)) ''/games/disc''
       = Some (Directory [(''game.cue'', File_entry), (''game.bin'', File_entry)])
   \<and> disk (snd (extract_archive ''good.7z'' zip_world)) ''/games/disc/game.cue''
       = Some (Regular (Data ''C''))
   \<and> disk (snd (extract_archive ''good.7z'' zip_world)) ''/games/disc/game.bin''
       = Some (Regular (Data ''B''))
   \<and> disk (snd (extract_archive ''good.7z'' zip_world)) ''/games/readme.txt''
       = Some (Regular (Data ''R''))"
  by (simp add: extract_archive_def open_archive_def zip_world_def good_zip_def games_def
      write_members_def safe_member_def folders_def path_under_def put_entry_def
      sub_listing_def join_def startswith_def endswith1_def upt_rec)

lemma scan_after_extract_good_7z:
  "fst (search_path_for_discs ''/games'' (snd (extract_archive ''good.7z'' zip_world))) =
     Inr [''/games/a.iso'', ''/games/z.cue'', ''/games/sub/b.bin'', ''/games/sub/deep/d.chd'',
          ''/games/disc/game.cue'', ''/games/disc/game.bin'']"
  by (simp add: extract_archive_def open_archive_def zip_world_def good_zip_def games_def
      write_members_def safe_member_def folders_def path_under_def put_entry_def
      sub_listing_def upt_rec search_path_for_discs_def isdir_def os_walk_def walk.simps
      dirnames_def filenames_def endswith_def endswith1_def startswith_def join_def
      supported_discs_def)

end
